theory Spec2Isabelle
  imports Main "HOL-Library.Word" "HOL-Library.Sublist" "HOL-Library.Log_Nat"
begin

section \<open>The measurement table\<close>

text \<open>
  The report script \<^verbatim>\<open>reports/generate_report_gate_system.py\<close> loads one CSV file into a
  table and works on its columns.  A row of the table is a record with the six columns of
  the file.  The byte counts are integer columns, which the dataframe library stores as
  64-bit integers: arithmetic on them wraps around, so they are words.  The \<^verbatim>\<open>event\<close>
  column holds text.  The table is the list of its rows in file order.
\<close>

type_synonym int64 = "64 word"

record measurement =
  timestamp :: int64
  event :: string
  free_heap :: int64
  total_allocated_bytes :: int64
  largest_free_block :: int64
  min_free_heap :: int64

type_synonym table = "measurement list"

datatype py_error = IndexError | ValueError | ReError | LibraryError

text \<open>Sequencing of steps that may raise: the first error ends the computation.\<close>

fun bind_e :: "'e + 'a \<Rightarrow> ('a \<Rightarrow> 'e + 'b) \<Rightarrow> 'e + 'b" where
  "bind_e (Inl e) f = Inl e"
| "bind_e (Inr x) f = f x"

section \<open>Regular expressions of \<^verbatim>\<open>str.contains\<close>\<close>

text \<open>
  \<^verbatim>\<open>Series.str.contains(pat)\<close> compiles \<^verbatim>\<open>pat\<close> as a regular expression and keeps the
  rows in which \<^verbatim>\<open>re.search\<close> finds a match anywhere in the text.  The patterns of the
  script use literal characters, groups and alternation only; the parser below reads
  exactly that fragment (alternation binds weakest, a group is a parenthesised
  alternation) and refuses every other metacharacter and unbalanced parentheses.
\<close>

datatype regex = Eps | Lit char | Seq regex regex | Or regex regex

definition metachar :: "char \<Rightarrow> bool" where
  "metachar c = (c \<in> set ''.^$*+?{}[]'' \<or> c = CHR 0x5C)"

text \<open>A frame is the alternation read so far in a group and the branch being read.\<close>

type_synonym frame = "regex option \<times> regex"

fun close_frame :: "frame \<Rightarrow> regex" where
  "close_frame (None, cur) = cur"
| "close_frame (Some a, cur) = Or a cur"

fun parse_re :: "string \<Rightarrow> frame \<Rightarrow> frame list \<Rightarrow> regex option" where
  "parse_re [] fr stack = (if stack = [] then Some (close_frame fr) else None)"
| "parse_re (c # cs) fr stack =
     (if c = CHR ''('' then parse_re cs (None, Eps) (fr # stack)
      else if c = CHR '')'' then
        (case stack of
           [] \<Rightarrow> None
         | (a, s) # st \<Rightarrow> parse_re cs (a, Seq s (close_frame fr)) st)
      else if c = CHR ''|'' then parse_re cs (Some (close_frame fr), Eps) stack
      else if metachar c then None
      else parse_re cs (fst fr, Seq (snd fr) (Lit c)) stack)"

definition re_compile :: "string \<Rightarrow> regex option" where
  "re_compile pat = parse_re pat (None, Eps) []"

text \<open>The words a pattern without repetition matches, and the search for one of them.\<close>

fun lang :: "regex \<Rightarrow> string list" where
  "lang Eps = [[]]"
| "lang (Lit c) = [[c]]"
| "lang (Seq a b) = concat (map (\<lambda>u. map (\<lambda>v. u @ v) (lang b)) (lang a))"
| "lang (Or a b) = lang a @ lang b"

definition re_search :: "regex \<Rightarrow> string \<Rightarrow> bool" where
  "re_search r s = list_ex (\<lambda>w. sublist w s) (lang r)"

text \<open>\<^verbatim>\<open>df[df['event'].str.contains(pat)]\<close>: the rows whose event the pattern matches.\<close>

definition where_contains :: "string \<Rightarrow> table \<Rightarrow> py_error + table" where
  "where_contains pat df =
     (case re_compile pat of
        None \<Rightarrow> Inl ReError
      | Some r \<Rightarrow> Inr (filter (\<lambda>row. re_search r (event row)) df))"

section \<open>Initialization rows and gate operations (lines 16 to 39)\<close>

definition init_data :: "table \<Rightarrow> py_error + table" where
  "init_data df = where_contains ''Before|After (WiFi|MQTT|Servo) init'' df"

definition gate_ops :: "table \<Rightarrow> py_error + table" where
  "gate_ops df =
     where_contains ''(Before|After) open entry gate|(Before|After) close entry gate'' df"

record gate_op =
  operation_number :: int
  free_heap_before :: int64
  free_heap_after :: int64
  allocated_before :: int64
  allocated_after :: int64
  memory_used :: int64
  allocation_increase :: int64

text \<open>
  \<^verbatim>\<open>pd.DataFrame({...})\<close> of five columns: the constructor raises \<^verbatim>\<open>ValueError\<close> when the
  columns differ in length, and otherwise row \<open>i\<close> holds the \<open>i\<close>-th entry of each.  The
  two computed columns of lines 38 and 39 are filled in by \<open>with_deltas\<close>.
\<close>

definition make_frame ::
  "int list \<Rightarrow> int64 list \<Rightarrow> int64 list \<Rightarrow> int64 list \<Rightarrow> int64 list \<Rightarrow> py_error + gate_op list" where
  "make_frame ns fb fa ab aa =
     (if length fb = length ns \<and> length fa = length ns \<and> length ab = length ns
         \<and> length aa = length ns
      then Inr (map (\<lambda>i. \<lparr>operation_number = ns ! i, free_heap_before = fb ! i,
                           free_heap_after = fa ! i, allocated_before = ab ! i,
                           allocated_after = aa ! i, memory_used = 0,
                           allocation_increase = 0\<rparr>) [0..<length ns])
      else Inl ValueError)"

definition with_deltas :: "gate_op \<Rightarrow> gate_op" where
  "with_deltas g =
     g\<lparr>memory_used := free_heap_before g - free_heap_after g,
       allocation_increase := allocated_after g - allocated_before g\<rparr>"

definition gate_ops_memory :: "table \<Rightarrow> py_error + gate_op list" where
  "gate_ops_memory df =
     bind_e (gate_ops df) (\<lambda>gate.
     bind_e (where_contains ''Before'' gate) (\<lambda>gate_ops_before.
     bind_e (where_contains ''After'' gate) (\<lambda>gate_ops_after.
       let min_ops = min (length gate_ops_before) (length gate_ops_after);
           before = take min_ops gate_ops_before;
           after = take min_ops gate_ops_after
       in bind_e (make_frame (map int [1..<min_ops + 1])
                    (map free_heap before) (map free_heap after)
                    (map total_allocated_bytes before) (map total_allocated_bytes after))
            (\<lambda>frame. Inr (map with_deltas frame)))))"

section \<open>Double-precision numbers\<close>

text \<open>
  True division and the arithmetic that follows it are carried out in IEEE 754 binary64
  with rounding to nearest, ties to even.  A finite double is represented by the rational
  number it denotes; the sign of zero is not represented (the divisors of the script are
  converted integers and sums of them, never a negative zero).  \<open>rnd\<close> rounds a rational
  to the nearest multiple of the unit in the last place, which is \<open>2\<close> to the power
  \<open>ulp_exp\<close>: 52 binary places below the leading bit, and never below \<open>2\<^sup>-\<^sup>1\<^sup>0\<^sup>7\<^sup>4\<close>
  (the subnormal range).  A rounded magnitude of \<open>2\<^sup>1\<^sup>0\<^sup>2\<^sup>4\<close> or more overflows to infinity.
\<close>

datatype float64 = Finite rat | PosInf | NegInf | NaN

text \<open>The integer part of the binary logarithm of a positive rational.\<close>

definition ilog2 :: "rat \<Rightarrow> int" where
  "ilog2 x =
     (let k = bitlen (fst (quotient_of x)) - bitlen (snd (quotient_of x))
      in if 2 powi k \<le> x then k else k - 1)"

definition round_even :: "rat \<Rightarrow> int" where
  "round_even y =
     (let f = \<lfloor>y\<rfloor>; d = y - of_int f
      in if d < 1 / 2 then f else if 1 / 2 < d then f + 1
         else if even f then f else f + 1)"

definition ulp_exp :: "rat \<Rightarrow> int" where
  "ulp_exp x = max (ilog2 \<bar>x\<bar> - 52) (- 1074)"

definition rnd :: "rat \<Rightarrow> rat" where
  "rnd x = (if x = 0 then 0 else of_int (round_even (x / 2 powi ulp_exp x)) * 2 powi ulp_exp x)"

definition round64 :: "rat \<Rightarrow> float64" where
  "round64 x =
     (let y = rnd x
      in if 2 ^ 1024 \<le> y then PosInf else if y \<le> - (2 ^ 1024) then NegInf else Finite y)"

definition signed_inf :: "bool \<Rightarrow> float64" where
  "signed_inf positive = (if positive then PosInf else NegInf)"

fun fadd :: "float64 \<Rightarrow> float64 \<Rightarrow> float64" where
  "fadd (Finite a) (Finite b) = round64 (a + b)"
| "fadd NaN _ = NaN"
| "fadd _ NaN = NaN"
| "fadd PosInf NegInf = NaN"
| "fadd NegInf PosInf = NaN"
| "fadd PosInf _ = PosInf"
| "fadd NegInf _ = NegInf"
| "fadd _ PosInf = PosInf"
| "fadd _ NegInf = NegInf"

fun fneg :: "float64 \<Rightarrow> float64" where
  "fneg (Finite a) = Finite (- a)"
| "fneg PosInf = NegInf"
| "fneg NegInf = PosInf"
| "fneg NaN = NaN"

definition fsub :: "float64 \<Rightarrow> float64 \<Rightarrow> float64" where
  "fsub x y = fadd x (fneg y)"

fun fmul :: "float64 \<Rightarrow> float64 \<Rightarrow> float64" where
  "fmul (Finite a) (Finite b) = round64 (a * b)"
| "fmul NaN _ = NaN"
| "fmul _ NaN = NaN"
| "fmul (Finite a) PosInf = (if a = 0 then NaN else signed_inf (0 < a))"
| "fmul (Finite a) NegInf = (if a = 0 then NaN else signed_inf (a < 0))"
| "fmul PosInf (Finite b) = (if b = 0 then NaN else signed_inf (0 < b))"
| "fmul NegInf (Finite b) = (if b = 0 then NaN else signed_inf (b < 0))"
| "fmul PosInf PosInf = PosInf"
| "fmul PosInf NegInf = NegInf"
| "fmul NegInf PosInf = NegInf"
| "fmul NegInf NegInf = PosInf"

text \<open>
  Array division does not raise on a zero divisor: it gives an infinity, or not-a-number
  for \<open>0 / 0\<close>.
\<close>

fun fdiv :: "float64 \<Rightarrow> float64 \<Rightarrow> float64" where
  "fdiv (Finite a) (Finite b) =
     (if b = 0 then (if a = 0 then NaN else signed_inf (0 < a)) else round64 (a / b))"
| "fdiv NaN _ = NaN"
| "fdiv _ NaN = NaN"
| "fdiv (Finite a) PosInf = Finite 0"
| "fdiv (Finite a) NegInf = Finite 0"
| "fdiv PosInf (Finite b) = signed_inf (0 \<le> b)"
| "fdiv NegInf (Finite b) = signed_inf (b < 0)"
| "fdiv PosInf PosInf = NaN"
| "fdiv PosInf NegInf = NaN"
| "fdiv NegInf PosInf = NaN"
| "fdiv NegInf NegInf = NaN"

text \<open>The conversion of a 64-bit integer to a double, as division applies it to both operands.\<close>

definition float_of_int64 :: "int64 \<Rightarrow> float64" where
  "float_of_int64 w = round64 (of_int (sint w))"

section \<open>Fragmentation index (lines 153 and 260)\<close>

text \<open>\<^verbatim>\<open>(1 - (largest_free_block / free_heap)) * 100\<close>, row by row.\<close>

definition fragmentation_percent :: "measurement \<Rightarrow> float64" where
  "fragmentation_percent row =
     fmul (fsub (Finite 1)
             (fdiv (float_of_int64 (largest_free_block row)) (float_of_int64 (free_heap row))))
          (Finite 100)"

section \<open>What the libraries decide\<close>

text \<open>
  Three things are decided inside the dataframe and plotting libraries and not by the
  script: whether drawing and saving one output succeeds, the outcome of the operation
  bar chart of lines 70 to 108 (an error, or whether the pivot table has both a
  \<^verbatim>\<open>Before\<close> and an \<^verbatim>\<open>After\<close> column, in which case the chart is written), and the order in
  which a column of doubles is added up.  They are parameters of the model.
\<close>

record library =
  render :: "string \<Rightarrow> table \<Rightarrow> py_error option"
  impact :: "table \<Rightarrow> py_error + bool"
  colsum :: "float64 list \<Rightarrow> float64"

text \<open>
  The mean of an integer column: the entries are converted to doubles, added, and the sum
  is divided by the count; the mean of an empty column is not-a-number.
\<close>

definition mean_int64 :: "library \<Rightarrow> int64 list \<Rightarrow> float64" where
  "mean_int64 L xs =
     (if xs = [] then NaN
      else fdiv (colsum L (map float_of_int64 xs)) (round64 (of_nat (length xs))))"

text \<open>A library in which every output succeeds and columns are added from left to right.\<close>

definition fsum :: "float64 list \<Rightarrow> float64" where
  "fsum xs = foldl fadd (Finite 0) xs"

definition plain_library :: library where
  "plain_library = \<lparr>render = (\<lambda>name df. None), impact = (\<lambda>df. Inr True), colsum = fsum\<rparr>"

section \<open>Initialization summary (lines 197 to 214)\<close>

text \<open>\<^verbatim>\<open>df[df['event'] == label].iloc[0]\<close>: the first row with that exact event.\<close>

definition first_where :: "table \<Rightarrow> string \<Rightarrow> py_error + measurement" where
  "first_where df label =
     (case filter (\<lambda>row. event row = label) df of
        [] \<Rightarrow> Inl IndexError
      | row # _ \<Rightarrow> Inr row)"

definition first_free_heap :: "table \<Rightarrow> string \<Rightarrow> py_error + int64" where
  "first_free_heap df label = bind_e (first_where df label) (\<lambda>row. Inr (free_heap row))"

record init_row =
  operation :: string
  before_bytes :: int64
  after_bytes :: int64
  delta_bytes :: int64
  percent_of_initial :: float64

text \<open>
  One row of the summary from its name and its two looked-up values; \<open>initial\<close> is the
  first entry of the \<^verbatim>\<open>Before (bytes)\<close> column.
\<close>

definition summary_row :: "int64 \<Rightarrow> string \<times> int64 \<times> int64 \<Rightarrow> init_row" where
  "summary_row initial = (\<lambda>(name, b, a).
     \<lparr>operation = name, before_bytes = b, after_bytes = a, delta_bytes = b - a,
      percent_of_initial =
        fmul (fdiv (float_of_int64 (b - a)) (float_of_int64 initial)) (Finite 100)\<rparr>)"

text \<open>The eight lookups are made in the order of the two list displays.\<close>

definition init_summary :: "table \<Rightarrow> py_error + init_row list" where
  "init_summary df =
     bind_e (first_free_heap df ''Before WiFi init'') (\<lambda>b1.
     bind_e (first_free_heap df ''Before Servo init'') (\<lambda>b2.
     bind_e (first_free_heap df ''Before MQTT init'') (\<lambda>b3.
     bind_e (first_free_heap df ''Before WiFi init'') (\<lambda>b4.
     bind_e (first_free_heap df ''After WiFi init'') (\<lambda>a1.
     bind_e (first_free_heap df ''After Servo init'') (\<lambda>a2.
     bind_e (first_free_heap df ''After MQTT init'') (\<lambda>a3.
     bind_e (first_free_heap df ''After MQTT init'') (\<lambda>a4.
       Inr (map (summary_row b1)
              [(''WiFi Init'', b1, a1), (''Servo Init'', b2, a2), (''MQTT Init'', b3, a3),
               (''Total System Init'', b4, a4)])))))))))"

section \<open>Operation summary (lines 233 to 240)\<close>

definition digit :: "nat \<Rightarrow> char" where
  "digit d = char_of (48 + d)"

function show_nat :: "nat \<Rightarrow> string" where
  "show_nat n = (if n < 10 then [digit n] else show_nat (n div 10) @ [digit (n mod 10)])"
  by pat_completeness auto
termination
  by (relation "measure id") auto

record op_row =
  op_label :: string
  op_free_heap_before :: float64
  op_free_heap_after :: float64
  op_memory_used :: float64
  op_allocated_before :: float64
  op_allocated_after :: float64

text \<open>
  Each column is the list of the integer entries followed by their mean, which makes it a
  column of doubles.
\<close>

definition operation_summary :: "library \<Rightarrow> gate_op list \<Rightarrow> op_row list" where
  "operation_summary L ops =
     map (\<lambda>i. \<lparr>op_label = ''Gate Op #'' @ show_nat (i + 1),
                op_free_heap_before = float_of_int64 (free_heap_before (ops ! i)),
                op_free_heap_after = float_of_int64 (free_heap_after (ops ! i)),
                op_memory_used = float_of_int64 (memory_used (ops ! i)),
                op_allocated_before = float_of_int64 (allocated_before (ops ! i)),
                op_allocated_after = float_of_int64 (allocated_after (ops ! i))\<rparr>)
       [0..<length ops]
     @ [\<lparr>op_label = ''Average'',
         op_free_heap_before = mean_int64 L (map free_heap_before ops),
         op_free_heap_after = mean_int64 L (map free_heap_after ops),
         op_memory_used = mean_int64 L (map memory_used ops),
         op_allocated_before = mean_int64 L (map allocated_before ops),
         op_allocated_after = mean_int64 L (map allocated_after ops)\<rparr>]"

section \<open>Fragmentation summary (lines 259 to 284)\<close>

record frag_row =
  stage :: string
  frag_free_heap :: float64
  frag_largest_free_block :: float64
  fragmentation_index :: float64

definition stage_row :: "measurement \<Rightarrow> frag_row" where
  "stage_row row =
     \<lparr>stage = event row, frag_free_heap = float_of_int64 (free_heap row),
      frag_largest_free_block = float_of_int64 (largest_free_block row),
      fragmentation_index = fragmentation_percent row\<rparr>"

text \<open>A stage is listed when its label occurs among the events; its first row is taken.\<close>

definition frag_stage :: "table \<Rightarrow> string \<Rightarrow> py_error + frag_row list" where
  "frag_stage df label =
     (if label \<in> set (map event df)
      then bind_e (first_where df label) (\<lambda>row. Inr [stage_row row])
      else Inr [])"

text \<open>
  \<^verbatim>\<open>gate_ops.mean(numeric_only=True)\<close> with the index recomputed from the two means.  The
  gate rows were selected before the per-row index column was added to the table, so the
  means have no index of their own.
\<close>

definition gate_ops_avg :: "library \<Rightarrow> table \<Rightarrow> frag_row" where
  "gate_ops_avg L gate =
     (let fh = mean_int64 L (map free_heap gate);
          lfb = mean_int64 L (map largest_free_block gate)
      in \<lparr>stage = ''During Operations'', frag_free_heap = fh, frag_largest_free_block = lfb,
          fragmentation_index = fmul (fsub (Finite 1) (fdiv lfb fh)) (Finite 100)\<rparr>)"

definition frag_summary :: "library \<Rightarrow> table \<Rightarrow> py_error + frag_row list" where
  "frag_summary L df =
     bind_e (gate_ops df) (\<lambda>gate.
     bind_e (frag_stage df ''Before WiFi init'') (\<lambda>s1.
     bind_e (frag_stage df ''After WiFi init'') (\<lambda>s2.
     bind_e (frag_stage df ''After MQTT init'') (\<lambda>s3.
       Inr (s1 @ s2 @ s3 @ (if 0 < length gate then [gate_ops_avg L gate] else []))))))"

section \<open>Pie chart (lines 303 to 317)\<close>

text \<open>The two values drawn, when the chart is drawn at all.\<close>

definition final_init :: "table \<Rightarrow> py_error + (int64 \<times> int64) option" where
  "final_init df =
     (if ''After MQTT init'' \<in> set (map event df)
      then bind_e (first_where df ''After MQTT init'')
             (\<lambda>row. Inr (Some (total_allocated_bytes row, free_heap row)))
      else Inr None)"

section \<open>The whole script\<close>

text \<open>
  The script is a sequence of stages.  A stage either raises, which ends the run, or
  writes its files.  The result of a run is the list of files written, in order, and the
  error that ended it, if any.  The drawing calls of one output are a single step
  \<open>save\<close>, placed where the output is written.
\<close>

definition save :: "library \<Rightarrow> string \<Rightarrow> table \<Rightarrow> py_error + string list" where
  "save L name df = (case render L name df of None \<Rightarrow> Inr [name] | Some e \<Rightarrow> Inl e)"

definition stages :: "library \<Rightarrow> table \<Rightarrow> (py_error + string list) list" where
  "stages L df =
     [bind_e (init_data df) (\<lambda>_. bind_e (gate_ops_memory df) (\<lambda>_. Inr [])),
      (if df = [] then Inl IndexError else save L ''memory_timeline_gate_system.png'' df),
      bind_e (impact L df) (\<lambda>both.
        if both then save L ''memory_impact_by_operation_gate_system.png'' df else Inr []),
      save L ''memory_recovery_pattern_gate_system.png'' df,
      save L ''allocated_vs_free_memory_gate_system.png'' df,
      save L ''memory_fragmentation_gate_system.png'' df,
      save L ''gate_operation_memory_delta_gate_system.png'' df,
      bind_e (init_summary df) (\<lambda>_. save L ''initialization_summary_table_gate_system.png'' df),
      save L ''operation_summary_table_gate_system.png'' df,
      bind_e (frag_summary L df) (\<lambda>_. save L ''fragmentation_summary_table_gate_system.png'' df),
      bind_e (final_init df) (\<lambda>pie.
        case pie of None \<Rightarrow> Inr [] | Some _ \<Rightarrow> save L ''memory_distribution_pie_gate_system.png'' df),
      save L ''initialization_summary_gate_system.csv'' df,
      save L ''operation_summary_gate_system.csv'' df,
      save L ''fragmentation_summary_gate_system.csv'' df]"

fun run_stages :: "(py_error + string list) list \<Rightarrow> string list \<times> py_error option" where
  "run_stages [] = ([], None)"
| "run_stages (Inl e # rest) = ([], Some e)"
| "run_stages (Inr files # rest) = (files @ fst (run_stages rest), snd (run_stages rest))"

definition run :: "library \<Rightarrow> table \<Rightarrow> string list \<times> py_error option" where
  "run L df = run_stages (stages L df)"

section \<open>Example tables\<close>

definition sample :: "string \<Rightarrow> int64 \<Rightarrow> int64 \<Rightarrow> int64 \<Rightarrow> measurement" where
  "sample e f a l =
     \<lparr>timestamp = 0, event = e, free_heap = f, total_allocated_bytes = a,
      largest_free_block = l, min_free_heap = 0\<rparr>"

definition five_three :: table where
  "five_three =
     [sample ''Before open entry gate'' 1000 500 900,
      sample ''After open entry gate'' 990 510 890,
      sample ''Before close entry gate'' 980 520 880,
      sample ''After close entry gate'' 970 530 870,
      sample ''Before open entry gate'' 960 540 860,
      sample ''After open entry gate'' 950 550 850,
      sample ''Before close entry gate'' 940 560 840,
      sample ''Before open entry gate'' 930 570 830]"

definition two_pairs :: table where
  "two_pairs =
     [sample ''Before WiFi init'' 5000 100 4000,
      sample ''Before open entry gate'' 1000 500 900,
      sample ''After open entry gate'' 990 512 890,
      sample ''Before close entry gate'' 980 520 880,
      sample ''After close entry gate'' 985 517 870]"

section \<open>Rounding to double precision\<close>

lemma bitlen_powi:
  assumes "0 < p"
  shows "(2::rat) powi (bitlen p - 1) \<le> of_int p" and "of_int p < (2::rat) powi bitlen p"
proof -
  from bitlen_bounds [OF assms]
  have a: "2 ^ nat (bitlen p - 1) \<le> p" and b: "p < 2 ^ nat (bitlen p)"
    by auto
  have one: "1 \<le> bitlen p"
  proof (rule ccontr)
    assume "\<not> 1 \<le> bitlen p"
    then have "bitlen p = 0"
      using bitlen_nonneg [of p] by linarith
    with b assms show False
      by simp
  qed
  have "(2::rat) powi (bitlen p - 1) = of_int (2 ^ nat (bitlen p - 1))"
    using one by (simp add: power_int_nonneg_exp)
  also have "\<dots> \<le> of_int p"
    using a by (simp only: of_int_le_iff)
  finally show "(2::rat) powi (bitlen p - 1) \<le> of_int p" .
  have "(of_int p :: rat) < of_int (2 ^ nat (bitlen p))"
    using b by (simp only: of_int_less_iff)
  also have "\<dots> = 2 powi bitlen p"
    using one by (simp add: power_int_nonneg_exp)
  finally show "of_int p < (2::rat) powi bitlen p" .
qed

lemma ilog2_bounds:
  assumes "0 < x"
  shows "2 powi ilog2 x \<le> x" and "x < 2 powi (ilog2 x + 1)"
proof -
  obtain p q where pq: "quotient_of x = (p, q)"
    by (cases "quotient_of x")
  then have q: "0 < q" and x: "x = of_int p / of_int q"
    by (rule quotient_of_denom_pos, rule quotient_of_div)
  from assms q x have p: "0 < p"
    by (simp add: zero_less_divide_iff)
  define k where "k = bitlen p - bitlen q"
  note bp = bitlen_powi [OF p] and bq = bitlen_powi [OF q]
  have pos: "(0::rat) < 2 powi (bitlen p - 1)" "(0::rat) < of_int q" "(0::rat) < 2 powi (bitlen q - 1)"
    using q by (simp_all add: zero_less_power_int)
  have "(2::rat) powi (bitlen p - 1 - bitlen q) = 2 powi (bitlen p - 1) / 2 powi bitlen q"
    by (rule power_int_diff) simp
  moreover have "k - 1 = bitlen p - 1 - bitlen q"
    by (simp add: k_def)
  ultimately have "2 powi (k - 1) = (2::rat) powi (bitlen p - 1) / 2 powi bitlen q"
    by (simp only:)
  also have "\<dots> < of_int p / of_int q"
    using pos(1) bp(1) pos(2) bq(2) by (rule frac_less2)
  finally have lo: "2 powi (k - 1) < x"
    unfolding x .
  have "of_int p / of_int q < (2::rat) powi bitlen p / 2 powi (bitlen q - 1)"
    using _ bp(2) pos(3) bq(1) by (rule frac_less) (use p in simp)
  also have "\<dots> = 2 powi (bitlen p - (bitlen q - 1))"
    by (rule power_int_diff [symmetric]) simp
  also have "bitlen p - (bitlen q - 1) = k + 1"
    by (simp add: k_def)
  finally have hi: "x < 2 powi (k + 1)"
    unfolding x .
  have il: "ilog2 x = (if 2 powi k \<le> x then k else k - 1)"
    by (simp add: ilog2_def pq k_def)
  show "2 powi ilog2 x \<le> x"
    using lo by (simp add: il)
  show "x < 2 powi (ilog2 x + 1)"
    using hi by (auto simp add: il)
qed

lemma ilog2_unique:
  assumes "2 powi k \<le> x" and "x < 2 powi (k + 1)"
  shows "ilog2 x = k"
proof -
  have "(0::rat) < 2 powi k"
    by (rule zero_less_power_int) simp
  with assms(1) have x: "0 < x"
    by linarith
  note b = ilog2_bounds [OF x]
  have "(2::rat) powi ilog2 x < 2 powi (k + 1)"
    using b(1) assms(2) by simp
  then have 1: "ilog2 x < k + 1"
    by (metis power_int_increasing not_le one_le_numeral)
  have "(2::rat) powi k < 2 powi (ilog2 x + 1)"
    using b(2) assms(1) by simp
  then have 2: "k < ilog2 x + 1"
    by (metis power_int_increasing not_le one_le_numeral)
  from 1 2 show ?thesis
    by simp
qed

lemma round_even_le: "y \<le> of_int n \<Longrightarrow> round_even y \<le> n"
proof -
  assume le: "y \<le> of_int n"
  show ?thesis
  proof (cases "y = of_int n")
    case True
    then show ?thesis
      by (simp add: round_even_def)
  next
    case False
    with le have "y < of_int n"
      by simp
    then have "\<lfloor>y\<rfloor> < n"
      by (simp add: floor_less_iff)
    then show ?thesis
      by (simp add: round_even_def Let_def)
  qed
qed

lemma round_even_ge: "of_int n \<le> y \<Longrightarrow> n \<le> round_even y"
proof -
  assume "of_int n \<le> y"
  then have "n \<le> \<lfloor>y\<rfloor>"
    by (simp add: le_floor_iff)
  then show ?thesis
    by (simp add: round_even_def Let_def)
qed

lemma round_even_of_int: "round_even (of_int n) = n"
  by (simp add: round_even_def)

lemma floor_minus_nonint:
  fixes y :: rat
  assumes "y \<noteq> of_int \<lfloor>y\<rfloor>"
  shows "\<lfloor>- y\<rfloor> = - \<lfloor>y\<rfloor> - 1"
proof (rule floor_unique)
  have up: "y < of_int \<lfloor>y\<rfloor> + 1"
    by linarith
  have "of_int \<lfloor>y\<rfloor> < y"
    by (rule le_neq_trans [OF of_int_floor_le assms [symmetric]])
  then show "- y < of_int (- \<lfloor>y\<rfloor> - 1) + 1"
    by simp
  show "of_int (- \<lfloor>y\<rfloor> - 1) \<le> - y"
    using up by simp
qed

lemma round_even_minus: "round_even (- y) = - round_even y"
proof (cases "y = of_int \<lfloor>y\<rfloor>")
  case True
  then obtain n where n: "y = of_int n" ..
  have "round_even (- of_int n) = round_even (of_int (- n))"
    by simp
  also have "\<dots> = - n"
    by (rule round_even_of_int)
  finally show ?thesis
    unfolding n by (simp only: round_even_of_int)
next
  case False
  define f where "f = \<lfloor>y\<rfloor>"
  define d where "d = y - of_int f"
  have fl: "\<lfloor>- y\<rfloor> = - f - 1"
    unfolding f_def using False by (rule floor_minus_nonint)
  have d': "- y - of_int (- f - 1) = 1 - d"
    by (simp add: d_def)
  have pos: "round_even y = (if d < 1 / 2 then f else if 1 / 2 < d then f + 1
      else if even f then f else f + 1)"
    by (simp add: round_even_def Let_def f_def d_def)
  have neg: "round_even (- y) = (if 1 - d < 1 / 2 then - f - 1 else if 1 / 2 < 1 - d then - f
      else if even (- f - 1) then - f - 1 else - f)"
    unfolding round_even_def Let_def fl d' by simp
  consider "d < 1 / 2" | "d = 1 / 2" | "1 / 2 < d"
    by linarith
  then show ?thesis
  proof cases
    case 1
    then show ?thesis
      unfolding pos neg by simp
  next
    case 2
    then show ?thesis
      unfolding pos neg by simp
  next
    case 3
    then show ?thesis
      unfolding pos neg by simp
  qed
qed

lemma ulp_exp_ge: "- 1074 \<le> ulp_exp x"
  by (simp add: ulp_exp_def)

lemma ulp_exp_upper:
  assumes "x \<noteq> 0"
  shows "\<bar>x\<bar> < 2 powi (ulp_exp x + 53)"
proof -
  have a: "0 < \<bar>x\<bar>"
    using assms by simp
  have "ilog2 \<bar>x\<bar> + 1 \<le> ulp_exp x + 53"
    by (simp add: ulp_exp_def)
  then have "(2::rat) powi (ilog2 \<bar>x\<bar> + 1) \<le> 2 powi (ulp_exp x + 53)"
    by (rule power_int_increasing) simp
  with ilog2_bounds(2) [OF a] show ?thesis
    by (rule less_le_trans)
qed

lemma ulp_exp_lower:
  assumes "x \<noteq> 0" and "ulp_exp x \<noteq> - 1074"
  shows "2 powi (ulp_exp x + 52) \<le> \<bar>x\<bar>"
proof -
  have a: "0 < \<bar>x\<bar>"
    using assms(1) by simp
  have "ulp_exp x + 52 = ilog2 \<bar>x\<bar>"
    using assms(2) by (simp add: ulp_exp_def max_def split: if_splits)
  with ilog2_bounds(1) [OF a] show ?thesis
    by simp
qed

lemma ulp_exp_minus: "ulp_exp (- x) = ulp_exp x"
  by (simp add: ulp_exp_def)

lemma rnd_minus: "rnd (- x) = - rnd x"
  by (simp add: rnd_def ulp_exp_minus round_even_minus)

lemma pow2_pos: "(0::rat) < 2 powi e"
  by (rule zero_less_power_int) simp

text \<open>A multiple of a power of two at or above the unit in the last place is a whole
  number of units.\<close>

lemma scaled_int:
  assumes "ex \<le> e"
  shows "of_int m * 2 powi e / 2 powi ex = (of_int (m * 2 ^ nat (e - ex)) :: rat)"
proof -
  have "(2::rat) powi (e - ex) = 2 powi e / 2 powi ex"
    by (rule power_int_diff) simp
  moreover have "(2::rat) powi (e - ex) = 2 ^ nat (e - ex)"
    using assms by (simp add: power_int_nonneg_exp)
  ultimately have "(2::rat) powi e / 2 powi ex = 2 ^ nat (e - ex)"
    by simp
  then have "of_int m * ((2::rat) powi e / 2 powi ex) = of_int m * 2 ^ nat (e - ex)"
    by (simp only:)
  then show ?thesis
    by simp
qed

lemma rnd_nonneg: "0 \<le> x \<Longrightarrow> 0 \<le> rnd x"
proof -
  assume x: "0 \<le> x"
  have "of_int 0 \<le> x / 2 powi ulp_exp x"
    using x pow2_pos [of "ulp_exp x"] by simp
  then have "0 \<le> round_even (x / 2 powi ulp_exp x)"
    by (rule round_even_ge)
  then show ?thesis
    using pow2_pos [of "ulp_exp x"] by (simp add: rnd_def)
qed

lemma rnd_ge_pos:
  assumes x: "0 < x" and c: "of_int m * 2 powi e \<le> x" and m: "\<bar>m\<bar> \<le> 2 ^ 53"
    and e: "- 1074 \<le> e"
  shows "of_int m * 2 powi e \<le> rnd x"
proof -
  define ex where "ex = ulp_exp x"
  define y where "y = x / 2 powi ex"
  have px: "(0::rat) < 2 powi ex"
    by (rule pow2_pos)
  have r: "rnd x = of_int (round_even y) * 2 powi ex"
    using x by (simp add: rnd_def ex_def y_def)
  show ?thesis
  proof (cases "ex \<le> e")
    case True
    have "(of_int (m * 2 ^ nat (e - ex)) :: rat) = of_int m * 2 powi e / 2 powi ex"
      by (rule scaled_int [OF True, symmetric])
    also have "\<dots> \<le> y"
      unfolding y_def using c by (rule divide_right_mono) (rule less_imp_le [OF px])
    finally have "m * 2 ^ nat (e - ex) \<le> round_even y"
      by (rule round_even_ge)
    then have "(of_int (m * 2 ^ nat (e - ex)) :: rat) \<le> of_int (round_even y)"
      by (simp only: of_int_le_iff)
    then have "of_int m * 2 powi e / 2 powi ex \<le> (of_int (round_even y) :: rat)"
      by (simp only: scaled_int [OF True])
    then show ?thesis
      unfolding r using px by (simp add: pos_divide_le_eq)
  next
    case False
    then have "ex \<noteq> - 1074"
      using e by simp
    with x have lo: "2 powi (ex + 52) \<le> x"
      using ulp_exp_lower [of x] by (simp add: ex_def)
    have "of_int (2 ^ 52) = (2::rat) powi (ex + 52) / 2 powi ex"
      by (simp add: power_int_add)
    also have "\<dots> \<le> y"
      unfolding y_def using lo by (rule divide_right_mono) (rule less_imp_le [OF px])
    finally have "2 ^ 52 \<le> round_even y"
      by (rule round_even_ge)
    then have "(of_int (2 ^ 52) :: rat) \<le> of_int (round_even y)"
      by (simp only: of_int_le_iff)
    then have "(2::rat) powi (ex + 52) \<le> of_int (round_even y) * 2 powi ex"
      using px by (simp add: power_int_add)
    moreover have "of_int m * 2 powi e \<le> (2::rat) powi (ex + 52)"
    proof -
      have "(of_int m :: rat) \<le> of_int (2 ^ 53)"
        using m by (simp only: of_int_le_iff)
      then have "of_int m * 2 powi e \<le> (of_int (2 ^ 53) :: rat) * 2 powi e"
        by (rule mult_right_mono) (rule less_imp_le [OF pow2_pos])
      also have "\<dots> = 2 powi (e + 53)"
        by (simp add: power_int_add)
      also have "\<dots> \<le> 2 powi (ex + 52)"
        using False by (intro power_int_increasing) simp_all
      finally show ?thesis .
    qed
    ultimately show ?thesis
      unfolding r by simp
  qed
qed

lemma mant_le_pow2:
  assumes m: "\<bar>m\<bar> \<le> 2 ^ 53" and lt: "e < ex"
  shows "of_int m * 2 powi e \<le> (2::rat) powi (ex + 52)"
proof -
  have "(of_int m :: rat) \<le> of_int (2 ^ 53)"
    using m by (simp only: of_int_le_iff)
  then have "of_int m * 2 powi e \<le> (of_int (2 ^ 53) :: rat) * 2 powi e"
    by (rule mult_right_mono) (rule less_imp_le [OF pow2_pos])
  also have "\<dots> = 2 powi (e + 53)"
    by (simp add: power_int_add)
  also have "\<dots> \<le> 2 powi (ex + 52)"
    using lt by (intro power_int_increasing) simp_all
  finally show ?thesis .
qed

lemma rnd_le_pos:
  assumes x: "0 < x" and c: "x \<le> of_int m * 2 powi e" and m: "\<bar>m\<bar> \<le> 2 ^ 53"
    and e: "- 1074 \<le> e"
  shows "rnd x \<le> of_int m * 2 powi e"
proof -
  define ex where "ex = ulp_exp x"
  define y where "y = x / 2 powi ex"
  have px: "(0::rat) < 2 powi ex"
    by (rule pow2_pos)
  have r: "rnd x = of_int (round_even y) * 2 powi ex"
    using x by (simp add: rnd_def ex_def y_def)
  show ?thesis
  proof (cases "ex \<le> e")
    case True
    have "y \<le> of_int m * 2 powi e / 2 powi ex"
      unfolding y_def using c by (rule divide_right_mono) (rule less_imp_le [OF px])
    also have "\<dots> = (of_int (m * 2 ^ nat (e - ex)) :: rat)"
      by (rule scaled_int [OF True])
    finally have "round_even y \<le> m * 2 ^ nat (e - ex)"
      by (rule round_even_le)
    then have "(of_int (round_even y) :: rat) \<le> of_int (m * 2 ^ nat (e - ex))"
      by (simp only: of_int_le_iff)
    then have "(of_int (round_even y) :: rat) \<le> of_int m * 2 powi e / 2 powi ex"
      by (simp only: scaled_int [OF True])
    then show ?thesis
      unfolding r using px by (simp add: pos_le_divide_eq)
  next
    case False
    then have lt: "e < ex"
      by simp
    then have "ex \<noteq> - 1074"
      using e by simp
    with x have lo: "2 powi (ex + 52) \<le> x"
      using ulp_exp_lower [of x] by (simp add: ex_def)
    from mant_le_pow2 [OF m lt] have hi: "of_int m * 2 powi e \<le> (2::rat) powi (ex + 52)" .
    from lo hi c have xeq: "x = 2 powi (ex + 52)" and ceq: "of_int m * 2 powi e = (2::rat) powi (ex + 52)"
      by linarith+
    have "y = of_int (2 ^ 52)"
      unfolding y_def xeq by (simp add: power_int_add)
    then have "round_even y = 2 ^ 52"
      by (simp only: round_even_of_int)
    then have "rnd x = 2 powi (ex + 52)"
      unfolding r by (simp add: power_int_add)
    then show ?thesis
      unfolding ceq by simp
  qed
qed

lemma rnd_le:
  assumes c: "x \<le> of_int m * 2 powi e" and m: "\<bar>m\<bar> \<le> 2 ^ 53" and e: "- 1074 \<le> e"
  shows "rnd x \<le> of_int m * 2 powi e"
proof -
  consider "0 < x" | "x = 0" | "x < 0" "0 \<le> of_int m * (2::rat) powi e"
    | "x < 0" "of_int m * (2::rat) powi e < 0"
    by linarith
  then show ?thesis
  proof cases
    case 1
    then show ?thesis
      using c m e by (rule rnd_le_pos)
  next
    case 2
    then show ?thesis
      using c by (simp add: rnd_def)
  next
    case 3
    from 3(1) have "0 \<le> rnd (- x)"
      by (intro rnd_nonneg) simp
    then have "rnd x \<le> 0"
      by (simp add: rnd_minus)
    with 3(2) show ?thesis
      by simp
  next
    case 4
    have "of_int (- m) * 2 powi e \<le> rnd (- x)"
    proof (rule rnd_ge_pos)
      show "0 < - x"
        using 4(1) by simp
      show "of_int (- m) * 2 powi e \<le> - x"
        using c by simp
      show "\<bar>- m\<bar> \<le> 2 ^ 53"
        using m by simp
      show "- 1074 \<le> e"
        by (rule e)
    qed
    then show ?thesis
      by (simp add: rnd_minus)
  qed
qed

lemma rnd_ge:
  assumes c: "of_int m * 2 powi e \<le> x" and m: "\<bar>m\<bar> \<le> 2 ^ 53" and e: "- 1074 \<le> e"
  shows "of_int m * 2 powi e \<le> rnd x"
proof -
  have "rnd (- x) \<le> of_int (- m) * 2 powi e"
  proof (rule rnd_le)
    show "- x \<le> of_int (- m) * 2 powi e"
      using c by simp
    show "\<bar>- m\<bar> \<le> 2 ^ 53"
      using m by simp
    show "- 1074 \<le> e"
      by (rule e)
  qed
  then show ?thesis
    by (simp add: rnd_minus)
qed

lemma rnd_exact:
  assumes "\<bar>m\<bar> \<le> 2 ^ 53" and "- 1074 \<le> e"
  shows "rnd (of_int m * 2 powi e) = of_int m * 2 powi e"
  by (rule antisym) (rule rnd_le [OF order_refl assms], rule rnd_ge [OF order_refl assms])

lemma rnd_abs_le:
  assumes "\<bar>x\<bar> \<le> 2 powi k" and "- 1074 \<le> k"
  shows "\<bar>rnd x\<bar> \<le> 2 powi k"
proof -
  have "rnd x \<le> of_int 1 * 2 powi k"
    by (rule rnd_le) (use assms in simp_all)
  moreover have "of_int (- 1) * 2 powi k \<le> rnd x"
    by (rule rnd_ge) (use assms in simp_all)
  ultimately show ?thesis
    by simp
qed

lemma round64_finite:
  assumes "\<bar>x\<bar> \<le> 2 powi k" and "- 1074 \<le> k" and "k < 1024"
  shows "round64 x = Finite (rnd x)"
proof -
  have "\<bar>rnd x\<bar> \<le> 2 powi k"
    using assms(1,2) by (rule rnd_abs_le)
  moreover have "(2::rat) powi k < 2 powi 1024"
    using assms(3) by (intro power_int_strict_increasing) simp_all
  ultimately have "\<bar>rnd x\<bar> < 2 ^ 1024"
    by simp
  then have up: "rnd x < 2 ^ 1024" and "- rnd x < 2 ^ 1024"
    by (simp_all only: abs_less_iff)
  then have "- (2 ^ 1024) < rnd x"
    by (simp only: minus_less_iff [of "2 ^ 1024"])
  then have "\<not> rnd x \<le> - (2 ^ 1024)"
    by (simp only: not_le)
  moreover from up have "\<not> 2 ^ 1024 \<le> rnd x"
    by (simp only: not_le)
  ultimately show ?thesis
    unfolding round64_def Let_def by (simp only: if_False)
qed

lemma rnd_eval:
  assumes "2 powi (e + 52) \<le> \<bar>x\<bar>" and "\<bar>x\<bar> < 2 powi (e + 53)" and "- 1074 \<le> e"
  shows "rnd x = of_int (round_even (x / 2 powi e)) * 2 powi e"
proof -
  have "ilog2 \<bar>x\<bar> = e + 52"
    using assms(1,2) by (intro ilog2_unique) (simp_all add: add.commute add.left_commute)
  then have "ulp_exp x = e"
    using assms(3) by (simp add: ulp_exp_def)
  moreover have "0 < \<bar>x\<bar>"
    by (rule less_le_trans [OF pow2_pos assms(1)])
  then have "x \<noteq> 0"
    by simp
  ultimately show ?thesis
    by (simp add: rnd_def)
qed

lemma round_even_down:
  assumes "of_int f \<le> y" and "y < of_int f + 1 / 2"
  shows "round_even y = f"
proof -
  have "\<lfloor>y\<rfloor> = f"
    using assms by (intro floor_unique) simp_all
  then show ?thesis
    using assms by (simp add: round_even_def Let_def)
qed

lemma round_even_up:
  assumes "of_int f - 1 / 2 < y" and "y \<le> of_int f"
  shows "round_even y = f"
proof -
  have "round_even (- y) = - f"
    by (rule round_even_down) (use assms in simp_all)
  then show ?thesis
    by (simp add: round_even_minus)
qed

section \<open>The patterns of the script\<close>

lemma where_contains_Before:
  "where_contains ''Before'' df = Inr (filter (\<lambda>row. sublist ''Before'' (event row)) df)"
  by (simp add: where_contains_def re_compile_def metachar_def re_search_def)

lemma where_contains_After:
  "where_contains ''After'' df = Inr (filter (\<lambda>row. sublist ''After'' (event row)) df)"
  by (simp add: where_contains_def re_compile_def metachar_def re_search_def)

lemma gate_ops_eq:
  "gate_ops df = Inr (filter (\<lambda>row.
      sublist ''Before open entry gate'' (event row) \<or>
      sublist ''After open entry gate'' (event row) \<or>
      sublist ''Before close entry gate'' (event row) \<or>
      sublist ''After close entry gate'' (event row)) df)"
  by (simp add: gate_ops_def where_contains_def re_compile_def metachar_def re_search_def)

lemma init_data_eq:
  "init_data df = Inr (filter (\<lambda>row.
      sublist ''Before'' (event row) \<or>
      sublist ''After WiFi init'' (event row) \<or>
      sublist ''After MQTT init'' (event row) \<or>
      sublist ''After Servo init'' (event row)) df)"
  by (simp add: init_data_def where_contains_def re_compile_def metachar_def re_search_def)

lemma range_from_one:
  "length (map int [1..<m + 1]) = m" "i < m \<Longrightarrow> map int [1..<m + 1] ! i = int i + 1"
  by (simp_all del: upt_Suc)

lemma gate_ops_memory_rows:
  assumes "gate_ops df = Inr gate"
    and "before = filter (\<lambda>row. sublist ''Before'' (event row)) gate"
    and "after = filter (\<lambda>row. sublist ''After'' (event row)) gate"
  shows "gate_ops_memory df =
    Inr (map (\<lambda>i. \<lparr>operation_number = int i + 1,
                    free_heap_before = free_heap (before ! i),
                    free_heap_after = free_heap (after ! i),
                    allocated_before = total_allocated_bytes (before ! i),
                    allocated_after = total_allocated_bytes (after ! i),
                    memory_used = free_heap (before ! i) - free_heap (after ! i),
                    allocation_increase =
                      total_allocated_bytes (after ! i) - total_allocated_bytes (before ! i)\<rparr>)
           [0..<min (length before) (length after)])"
proof -
  define m where "m = min (length before) (length after)"
  define ns where "ns = map int [1..<m + 1]"
  have len: "length ns = m" and ns_nth: "\<And>i. i < m \<Longrightarrow> ns ! i = int i + 1"
    unfolding ns_def by (rule range_from_one)+
  have lb: "length (take m before) = m" and la: "length (take m after) = m"
    by (simp_all add: m_def)
  have frame: "make_frame ns (map free_heap (take m before)) (map free_heap (take m after))
      (map total_allocated_bytes (take m before)) (map total_allocated_bytes (take m after))
    = Inr (map (\<lambda>i. \<lparr>operation_number = int i + 1,
                    free_heap_before = free_heap (before ! i),
                    free_heap_after = free_heap (after ! i),
                    allocated_before = total_allocated_bytes (before ! i),
                    allocated_after = total_allocated_bytes (after ! i),
                    memory_used = 0, allocation_increase = 0\<rparr>) [0..<m])"
    unfolding make_frame_def using len lb la ns_nth by simp
  have "gate_ops_memory df =
      bind_e (make_frame ns (map free_heap (take m before)) (map free_heap (take m after))
        (map total_allocated_bytes (take m before)) (map total_allocated_bytes (take m after)))
        (\<lambda>frame. Inr (map with_deltas frame))"
    unfolding gate_ops_memory_def assms(1) bind_e.simps where_contains_Before
      where_contains_After Let_def m_def ns_def assms(2,3) ..
  also have "\<dots> = Inr (map with_deltas (map (\<lambda>i. \<lparr>operation_number = int i + 1,
                    free_heap_before = free_heap (before ! i),
                    free_heap_after = free_heap (after ! i),
                    allocated_before = total_allocated_bytes (before ! i),
                    allocated_after = total_allocated_bytes (after ! i),
                    memory_used = 0, allocation_increase = 0\<rparr>) [0..<m]))"
    unfolding frame by simp
  finally show ?thesis
    unfolding m_def by (simp add: with_deltas_def o_def)
qed


text \<open>
  Claim C1.  The gate rows are the rows whose event contains one of the four gate labels;
  the before rows are the gate rows containing \<^verbatim>\<open>Before\<close>, the after rows those containing
  \<^verbatim>\<open>After\<close>.  The table \<^verbatim>\<open>gate_ops_memory\<close> is built without error, has exactly
  \<open>min B A\<close> rows, and its \<open>i\<close>-th row holds the values of the \<open>i\<close>-th before row and of the
  \<open>i\<close>-th after row in file order; the rows beyond the shorter list are dropped.
\<close>

theorem gate_ops_memory_positional:
  assumes "gate = filter (\<lambda>row.
      sublist ''Before open entry gate'' (event row) \<or>
      sublist ''After open entry gate'' (event row) \<or>
      sublist ''Before close entry gate'' (event row) \<or>
      sublist ''After close entry gate'' (event row)) df"
    and "before = filter (\<lambda>row. sublist ''Before'' (event row)) gate"
    and "after = filter (\<lambda>row. sublist ''After'' (event row)) gate"
  shows "\<exists>ops. gate_ops_memory df = Inr ops \<and>
      length ops = min (length before) (length after) \<and>
      (\<forall>i<length ops.
         operation_number (ops ! i) = int i + 1 \<and>
         free_heap_before (ops ! i) = free_heap (before ! i) \<and>
         free_heap_after (ops ! i) = free_heap (after ! i) \<and>
         allocated_before (ops ! i) = total_allocated_bytes (before ! i) \<and>
         allocated_after (ops ! i) = total_allocated_bytes (after ! i))"
proof -
  have "gate_ops df = Inr gate"
    unfolding assms(1) by (rule gate_ops_eq)
  from gate_ops_memory_rows [OF this assms(2) assms(3)] show ?thesis
    by simp
qed

text \<open>Five before rows and three after rows give exactly three pairs.\<close>

lemma five_three_gate:
  "filter (\<lambda>row.
      sublist ''Before open entry gate'' (event row) \<or>
      sublist ''After open entry gate'' (event row) \<or>
      sublist ''Before close entry gate'' (event row) \<or>
      sublist ''After close entry gate'' (event row)) five_three = five_three"
  by code_simp

lemma five_three_before:
  "filter (\<lambda>row. sublist ''Before'' (event row)) five_three =
     [five_three ! 0, five_three ! 2, five_three ! 4, five_three ! 6, five_three ! 7]"
  by code_simp

lemma five_three_after:
  "filter (\<lambda>row. sublist ''After'' (event row)) five_three =
     [five_three ! 1, five_three ! 3, five_three ! 5]"
  by code_simp



theorem gate_ops_memory_positional_witness:
  "\<exists>ops. gate_ops_memory five_three = Inr ops \<and> length ops = 3 \<and>
     free_heap_before (ops ! 2) = 960 \<and> free_heap_after (ops ! 2) = 950"
proof -
  note T = gate_ops_memory_positional [OF refl refl refl, of five_three,
      unfolded five_three_gate five_three_before five_three_after]
  from T obtain ops where ops: "gate_ops_memory five_three = Inr ops"
    and len: "length ops = min (length [five_three ! 0, five_three ! 2, five_three ! 4,
        five_three ! 6, five_three ! 7]) (length [five_three ! 1, five_three ! 3, five_three ! 5])"
    and rows: "\<forall>i<length ops.
         operation_number (ops ! i) = int i + 1 \<and>
         free_heap_before (ops ! i) =
           free_heap ([five_three ! 0, five_three ! 2, five_three ! 4, five_three ! 6,
             five_three ! 7] ! i) \<and>
         free_heap_after (ops ! i) =
           free_heap ([five_three ! 1, five_three ! 3, five_three ! 5] ! i) \<and>
         allocated_before (ops ! i) =
           total_allocated_bytes ([five_three ! 0, five_three ! 2, five_three ! 4,
             five_three ! 6, five_three ! 7] ! i) \<and>
         allocated_after (ops ! i) =
           total_allocated_bytes ([five_three ! 1, five_three ! 3, five_three ! 5] ! i)"
    by (elim exE conjE)
  have len3: "length ops = 3"
    using len by simp
  then have "2 < length ops"
    by simp
  with rows have "free_heap_before (ops ! 2) = free_heap (five_three ! 4)"
    and "free_heap_after (ops ! 2) = free_heap (five_three ! 5)"
    by simp_all
  moreover have "free_heap (five_three ! 4) = 960" "free_heap (five_three ! 5) = 950"
    by (simp_all add: five_three_def sample_def)
  ultimately show ?thesis
    using ops len3 by simp
qed


text \<open>
  Claim C2.  In every row of \<^verbatim>\<open>gate_ops_memory\<close>, \<^verbatim>\<open>memory_used\<close> is the free heap before
  minus the free heap after, and \<^verbatim>\<open>allocation_increase\<close> is the allocated bytes after minus
  the allocated bytes before (64-bit integer subtraction); when the table has \<open>N\<close> before
  rows and \<open>N\<close> after rows, \<^verbatim>\<open>gate_ops_memory\<close> has exactly \<open>N\<close> rows.
\<close>

theorem gate_ops_memory_deltas:
  assumes "gate = filter (\<lambda>row.
      sublist ''Before open entry gate'' (event row) \<or>
      sublist ''After open entry gate'' (event row) \<or>
      sublist ''Before close entry gate'' (event row) \<or>
      sublist ''After close entry gate'' (event row)) df"
    and "before = filter (\<lambda>row. sublist ''Before'' (event row)) gate"
    and "after = filter (\<lambda>row. sublist ''After'' (event row)) gate"
  shows "\<exists>ops. gate_ops_memory df = Inr ops \<and>
      (\<forall>i<length ops.
         memory_used (ops ! i) = free_heap_before (ops ! i) - free_heap_after (ops ! i) \<and>
         allocation_increase (ops ! i) = allocated_after (ops ! i) - allocated_before (ops ! i) \<and>
         memory_used (ops ! i) = free_heap (before ! i) - free_heap (after ! i) \<and>
         allocation_increase (ops ! i) =
           total_allocated_bytes (after ! i) - total_allocated_bytes (before ! i)) \<and>
      (\<forall>N. length before = N \<and> length after = N \<longrightarrow> length ops = N)"
proof -
  have "gate_ops df = Inr gate"
    unfolding assms(1) by (rule gate_ops_eq)
  from gate_ops_memory_rows [OF this assms(2) assms(3)] show ?thesis
    by simp
qed

lemma two_pairs_gate:
  "filter (\<lambda>row.
      sublist ''Before open entry gate'' (event row) \<or>
      sublist ''After open entry gate'' (event row) \<or>
      sublist ''Before close entry gate'' (event row) \<or>
      sublist ''After close entry gate'' (event row)) two_pairs =
     [two_pairs ! 1, two_pairs ! 2, two_pairs ! 3, two_pairs ! 4]"
  by code_simp

lemma two_pairs_before:
  "filter (\<lambda>row. sublist ''Before'' (event row))
      [two_pairs ! 1, two_pairs ! 2, two_pairs ! 3, two_pairs ! 4] =
     [two_pairs ! 1, two_pairs ! 3]"
  by code_simp

lemma two_pairs_after:
  "filter (\<lambda>row. sublist ''After'' (event row))
      [two_pairs ! 1, two_pairs ! 2, two_pairs ! 3, two_pairs ! 4] =
     [two_pairs ! 2, two_pairs ! 4]"
  by code_simp

theorem gate_ops_memory_deltas_witness:
  "\<exists>ops. gate_ops_memory two_pairs = Inr ops \<and> length ops = 2 \<and>
     memory_used (ops ! 1) = - 5 \<and> allocation_increase (ops ! 1) = - 3"
proof -
  note T = gate_ops_memory_deltas [OF refl refl refl, of two_pairs,
      unfolded two_pairs_gate two_pairs_before two_pairs_after]
  from T obtain ops where ops: "gate_ops_memory two_pairs = Inr ops"
    and rows: "\<forall>i<length ops.
         memory_used (ops ! i) = free_heap_before (ops ! i) - free_heap_after (ops ! i) \<and>
         allocation_increase (ops ! i) = allocated_after (ops ! i) - allocated_before (ops ! i) \<and>
         memory_used (ops ! i) =
           free_heap ([two_pairs ! 1, two_pairs ! 3] ! i) -
           free_heap ([two_pairs ! 2, two_pairs ! 4] ! i) \<and>
         allocation_increase (ops ! i) =
           total_allocated_bytes ([two_pairs ! 2, two_pairs ! 4] ! i) -
           total_allocated_bytes ([two_pairs ! 1, two_pairs ! 3] ! i)"
    and len: "\<forall>N. length [two_pairs ! 1, two_pairs ! 3] = N \<and>
         length [two_pairs ! 2, two_pairs ! 4] = N \<longrightarrow> length ops = N"
    by (elim exE conjE)
  have len2: "length ops = 2"
    using len by simp
  then have one: "1 < length ops"
    by simp
  note r = rows [rule_format, OF one]
  from r have "memory_used (ops ! 1) =
      free_heap ([two_pairs ! 1, two_pairs ! 3] ! 1) -
      free_heap ([two_pairs ! 2, two_pairs ! 4] ! 1)"
    by blast
  then have "memory_used (ops ! 1) = free_heap (two_pairs ! 3) - free_heap (two_pairs ! 4)"
    by simp
  moreover from r have "allocation_increase (ops ! 1) =
      total_allocated_bytes ([two_pairs ! 2, two_pairs ! 4] ! 1) -
      total_allocated_bytes ([two_pairs ! 1, two_pairs ! 3] ! 1)"
    by blast
  then have "allocation_increase (ops ! 1) =
      total_allocated_bytes (two_pairs ! 4) - total_allocated_bytes (two_pairs ! 3)"
    by simp
  moreover have "free_heap (two_pairs ! 3) - free_heap (two_pairs ! 4) = - 5"
    "total_allocated_bytes (two_pairs ! 4) - total_allocated_bytes (two_pairs ! 3) = - 3"
    by (simp_all add: two_pairs_def sample_def)
  ultimately show ?thesis
    using ops len2 by simp
qed

text \<open>
  Claim C4.  A row is in \<^verbatim>\<open>init_data\<close> exactly when its event contains \<^verbatim>\<open>Before\<close> or
  contains one of \<^verbatim>\<open>After WiFi init\<close>, \<^verbatim>\<open>After MQTT init\<close>, \<^verbatim>\<open>After Servo init\<close>: the
  alternation of the pattern splits it into \<^verbatim>\<open>Before\<close> and
  \<^verbatim>\<open>After (WiFi|MQTT|Servo) init\<close>.  In particular every row whose event is
  \<^verbatim>\<open>Before open entry gate\<close> is an initialization row.
\<close>

theorem init_data_rows:
  "\<exists>rows. init_data df = Inr rows \<and>
     rows = filter (\<lambda>row.
       sublist ''Before'' (event row) \<or>
       sublist ''After WiFi init'' (event row) \<or>
       sublist ''After MQTT init'' (event row) \<or>
       sublist ''After Servo init'' (event row)) df \<and>
     (\<forall>row. row \<in> set rows \<longleftrightarrow>
        row \<in> set df \<and>
        (sublist ''Before'' (event row) \<or>
         (\<exists>name \<in> {''WiFi'', ''MQTT'', ''Servo''}.
            sublist (''After '' @ name @ '' init'') (event row)))) \<and>
     (\<forall>row \<in> set df. event row = ''Before open entry gate'' \<longrightarrow> row \<in> set rows)"
proof -
  have "sublist ''Before'' ''Before open entry gate''"
    by code_simp
  then show ?thesis
    unfolding init_data_eq by auto
qed

theorem init_data_rows_witness:
  "\<exists>rows. init_data two_pairs = Inr rows \<and>
     rows = [two_pairs ! 0, two_pairs ! 1, two_pairs ! 3] \<and> two_pairs ! 1 \<in> set rows"
proof -
  have f: "filter (\<lambda>row.
       sublist ''Before'' (event row) \<or>
       sublist ''After WiFi init'' (event row) \<or>
       sublist ''After MQTT init'' (event row) \<or>
       sublist ''After Servo init'' (event row)) two_pairs =
     [two_pairs ! 0, two_pairs ! 1, two_pairs ! 3]"
    by code_simp
  have m: "two_pairs ! 1 \<in> set two_pairs" "event (two_pairs ! 1) = ''Before open entry gate''"
    by (simp_all add: two_pairs_def sample_def)
  from init_data_rows [of two_pairs, unfolded f] m show ?thesis
    by blast
qed

end
